theory Spec2Isabelle
  imports Complex_Main
begin

section \<open>The request handler of \<open>ctk/requests.py\<close>\<close>

text \<open>
  \<open>RequestHandler\<close> sends one HTTP request in a loop of at most
  \<open>retry_max_attempts\<close> iterations, checks the status code of the response, backs off
  exponentially on a retry status, and sleeps \<open>request_interval\<close> seconds in a
  \<open>finally\<close> block after every iteration.

  The \<open>requests\<close> library, \<open>random\<close> and \<open>time.sleep\<close> are the outside world of the
  handler. They are modelled as follows.
  \<^item> The transport (\<open>requests.get\<close>, \<open>requests.post\<close>) is a script: its \<open>k\<close>-th call
    (counted from 0) either returns a response or raises an exception.
  \<^item> A response is what the handler observes of it: its status code, the result of
    \<open>content.decode('utf-8')\<close> and the result of \<open>json()\<close>, each of the two last
    \<open>None\<close> where the call raises.
  \<^item> \<open>random.uniform(0, 1)\<close> is \<open>0 + (1 - 0) * random()\<close>, and \<open>random()\<close> is a 53-bit
    integer divided by \<open>2^53\<close>. The second script gives these integers, one for each
    draw.
  \<^item> A Python float is an IEEE 754 double: a real number, and every addition and
    multiplication rounds its exact result to the nearest double, ties to the even
    significand.
  \<^item> Every call of the transport and of \<open>time.sleep\<close> is appended to a trace.
  \<^item> The arguments \<open>post_data\<close> and \<open>params\<close>, the URL and the headers only travel to
    the transport, and logging has no effect on the result; they are left out.
\<close>

subsection \<open>Exceptions, responses, events\<close>

datatype exn =
    HTTPError string
  | Timeout
  | ReadTimeout
  | ConnectTimeout
  | ConnectionError
  | UnspecifiedHTTPStatusError string
  | ValueError string
  | UnboundLocalError string
  | OverflowError
  | UnicodeDecodeError
  | JSONDecodeError

record 'j response =
  status_code :: int
  content_utf8 :: "string option"
  json :: "'j option"

datatype 'j reply = Response "'j response" | Failure exn

datatype event = HttpGet | HttpPost | BackoffSleep real | IntervalSleep int

text \<open>Control leaves a block normally, by \<open>return\<close>, or by an exception.\<close>

datatype 'j flow = Normal | Return 'j | Raise exn

subsection \<open>\<open>str\<close> of an integer\<close>

fun digits :: "nat \<Rightarrow> string" where
  "digits n =
     (if n < 10 then [''0123456789'' ! n]
      else digits (n div 10) @ [''0123456789'' ! (n mod 10)])"

declare digits.simps [simp del]

definition str :: "int \<Rightarrow> string" where
  "str i = (if i < 0 then CHR ''-'' # digits (nat (- i)) else digits (nat i))"

subsection \<open>Arithmetic on doubles\<close>

text \<open>
  \<open>round_half_even\<close> rounds a real to the nearest integer, a tie to the even one.
  \<open>ulp x\<close> is the distance between neighbouring doubles at \<open>x\<close>: \<open>2^(e - 52)\<close> in the
  binade \<open>2^e \<le> |x| < 2^(e + 1)\<close>, and \<open>2^(-1074)\<close> for the subnormal numbers.
  \<open>nearest_double x\<close> is the double that an operation with exact result \<open>x\<close> returns.
  Results of magnitude \<open>2^1024\<close> and above, which become infinite, do not occur here.
\<close>

definition round_half_even :: "real \<Rightarrow> int" where
  "round_half_even x =
     (let f = \<lfloor>x\<rfloor>; r = x - of_int f
      in if r < 1 / 2 then f else if 1 / 2 < r then f + 1 else if even f then f else f + 1)"

definition ulp :: "real \<Rightarrow> real" where
  "ulp x = 2 powi (max (\<lfloor>log 2 \<bar>x\<bar>\<rfloor> - 52) (- 1074))"

definition nearest_double :: "real \<Rightarrow> real" where
  "nearest_double x = (if x = 0 then 0 else of_int (round_half_even (x / ulp x)) * ulp x)"

text \<open>The value of \<open>random.uniform(0, 1)\<close> for the 53 random bits of a draw.\<close>

definition uniform01 :: "nat \<Rightarrow> real" where
  "uniform01 bits = real (bits mod 2 ^ 53) / 2 ^ 53"

subsection \<open>\<open>_backoff_delay\<close>\<close>

text \<open>
  \<open>2 ** attempt_number\<close> is an exact integer for a non-negative exponent and the float
  power for a negative one; \<open>min\<close> with 10 is then at most 10 and converts to a double
  exactly. The sum \<open>1 + jitter\<close> and the product are float operations. The jitter is
  the value drawn by \<open>random.uniform(0, 1)\<close>.
\<close>

definition backoff_delay :: "int \<Rightarrow> real \<Rightarrow> real" where
  "backoff_delay attempt_number jitter =
     (let delay = min (if 0 \<le> attempt_number then 2 ^ nat attempt_number
                       else nearest_double (2 powi attempt_number)) 10
      in nearest_double (delay * nearest_double (1 + jitter)))"

subsection \<open>\<open>time.sleep\<close>\<close>

text \<open>
  \<open>time.sleep\<close> with an integer argument, as the request interval is: the seconds are
  converted to nanoseconds in a signed 64-bit integer, which raises \<open>OverflowError\<close>
  beyond 9223372036 seconds in either direction; after that a negative duration raises
  \<open>ValueError\<close>. \<open>None\<close> means that the call sleeps and returns.
\<close>

definition time_sleep :: "int \<Rightarrow> exn option" where
  "time_sleep secs =
     (if secs < - 9223372036 \<or> 9223372036 < secs then Some OverflowError
      else if secs < 0 then Some (ValueError ''sleep length must be non-negative'')
      else None)"

subsection \<open>The handler object, the outside world, the local variables\<close>

text \<open>The field \<open>http_method\<close> is the attribute \<open>self.method\<close>.\<close>

record config =
  base_url :: string
  http_method :: string
  request_interval :: int
  retry_max_attempts :: int
  valid_statuses :: "int set"
  invalid_statuses :: "int set"
  retry_statuses :: "int set"

text \<open>\<open>transport env k\<close> is the outcome of the \<open>k\<close>-th transport call and
  \<open>uniform env k\<close> the 53 random bits behind the \<open>k\<close>-th call of
  \<open>random.uniform(0, 1)\<close>, whose value is \<open>uniform01 (uniform env k)\<close>.\<close>

record 'j env =
  transport :: "nat \<Rightarrow> 'j reply"
  uniform :: "nat \<Rightarrow> nat"

text \<open>
  \<open>response\<close> is \<open>None\<close> as long as the local variable is unbound. \<open>calls\<close> and
  \<open>draws\<close> count the calls of the transport and of \<open>random.uniform\<close> made so far.
\<close>

record 'j state =
  attempt_number :: int
  response :: "'j response option"
  calls :: nat
  draws :: nat
  trace :: "event list"

subsection \<open>\<open>_handle_response\<close>\<close>

definition handle_response :: "config \<Rightarrow> 'j response \<Rightarrow> exn + bool" where
  "handle_response self r =
     (if status_code r \<in> valid_statuses self then Inr True
      else if status_code r \<in> invalid_statuses self then
        (case content_utf8 r of
           None \<Rightarrow> Inl UnicodeDecodeError
         | Some body \<Rightarrow> Inl (HTTPError body))
      else Inl (UnspecifiedHTTPStatusError
             (''Response status code not specified as valid or invalid: ''
                @ str (status_code r))))"

subsection \<open>\<open>handle_request\<close>\<close>

text \<open>One call of the transport: the call is traced, and a returned response is bound
  to the local variable \<open>response\<close>; a raised exception leaves the variable as it was.\<close>

definition send :: "event \<Rightarrow> 'j env \<Rightarrow> 'j state \<Rightarrow> (exn + 'j response) \<times> 'j state" where
  "send ev env s =
     (let s' = s\<lparr>calls := calls s + 1, trace := trace s @ [ev]\<rparr>
      in case transport env (calls s) of
           Failure e \<Rightarrow> (Inl e, s')
         | Response r \<Rightarrow> (Inr r, s'\<lparr>response := Some r\<rparr>))"

text \<open>The body of the \<open>try\<close> statement.\<close>

definition try_block :: "config \<Rightarrow> 'j env \<Rightarrow> 'j state \<Rightarrow> 'j flow \<times> 'j state" where
  "try_block self env s =
     (case (if http_method self = ''GET'' then send HttpGet env s
            else if http_method self = ''POST'' then send HttpPost env s
            else (Inl (ValueError (''Invalid HTTP method: '' @ http_method self)), s))
      of
        (Inl e, s1) \<Rightarrow> (Raise e, s1)
      | (Inr r, s1) \<Rightarrow>
          (case handle_response self r of
             Inl e \<Rightarrow> (Raise e, s1)
           | Inr ok \<Rightarrow>
               if ok then
                 (case json r of
                    None \<Rightarrow> (Raise JSONDecodeError, s1)
                  | Some j \<Rightarrow> (Return j, s1))
               else (Normal, s1)))"

text \<open>The exception classes that \<open>except (HTTPError, Timeout, ReadTimeout)\<close> catches:
  \<open>ReadTimeout\<close> and \<open>ConnectTimeout\<close> are subclasses of \<open>Timeout\<close>.\<close>

fun caught :: "exn \<Rightarrow> bool" where
  "caught (HTTPError _) = True"
| "caught Timeout = True"
| "caught ReadTimeout = True"
| "caught ConnectTimeout = True"
| "caught _ = False"

text \<open>
  The first \<open>except\<close> clause. \<open>or\<close> evaluates its right operand only when
  \<open>attempt_number == self.retry_max_attempts\<close> is false, and reading
  \<open>response.status_code\<close> while \<open>response\<close> is unbound raises \<open>UnboundLocalError\<close>
  (modelled with the name of the variable). The backoff delay is a float between 0 and
  20 (lemma \<open>backoff_sleep_argument\<close> below), so this \<open>time.sleep\<close> does not raise.
\<close>

definition except_block :: "config \<Rightarrow> 'j env \<Rightarrow> exn \<Rightarrow> 'j state \<Rightarrow> 'j flow \<times> 'j state" where
  "except_block self env e s =
     (if attempt_number s = retry_max_attempts self then (Raise e, s)
      else case response s of
             None \<Rightarrow> (Raise (UnboundLocalError ''response''), s)
           | Some r \<Rightarrow>
               if status_code r \<notin> retry_statuses self then (Raise e, s)
               else
                 (let delay = backoff_delay (attempt_number s) (uniform01 (uniform env (draws s)))
                  in (Normal, s\<lparr>attempt_number := attempt_number s + 1,
                                 draws := draws s + 1,
                                 trace := trace s @ [BackoffSleep delay]\<rparr>)))"

text \<open>
  The \<open>finally\<close> clause. An exception that \<open>time.sleep\<close> raises in a \<open>finally\<close> clause
  replaces the pending return or exception.
\<close>

definition finally_block :: "config \<Rightarrow> 'j flow \<times> 'j state \<Rightarrow> 'j flow \<times> 'j state" where
  "finally_block self p =
     (case p of (fl, s) \<Rightarrow>
        (let s' = s\<lparr>trace := trace s @ [IntervalSleep (request_interval self)]\<rparr>
         in case time_sleep (request_interval self) of
              Some e \<Rightarrow> (Raise e, s')
            | None \<Rightarrow> (fl, s')))"

text \<open>One iteration of the \<open>while\<close> loop: the whole \<open>try\<close> statement. The second
  \<open>except\<close> clause re-raises an \<open>UnspecifiedHTTPStatusError\<close>; any other exception
  passes through unhandled.\<close>

definition iteration :: "config \<Rightarrow> 'j env \<Rightarrow> 'j state \<Rightarrow> 'j flow \<times> 'j state" where
  "iteration self env s =
     finally_block self
       (case try_block self env s of
          (Raise e, s1) \<Rightarrow>
            if caught e then except_block self env e s1
            else (case e of
                    UnspecifiedHTTPStatusError m \<Rightarrow> (Raise (UnspecifiedHTTPStatusError m), s1)
                  | _ \<Rightarrow> (Raise e, s1))
        | (fl, s1) \<Rightarrow> (fl, s1))"

text \<open>
  The \<open>while\<close> loop. An iteration ends normally only through the first \<open>except\<close>
  clause, which has incremented \<open>attempt_number\<close>; this is what makes the loop
  terminate.
\<close>

function loop :: "config \<Rightarrow> 'j env \<Rightarrow> 'j state \<Rightarrow> 'j flow \<times> 'j state" where
  "loop self env s =
     (if attempt_number s \<le> retry_max_attempts self then
        (case iteration self env s of
           (fl, s') \<Rightarrow> (case fl of Normal \<Rightarrow> loop self env s' | _ \<Rightarrow> (fl, s')))
      else (Normal, s))"
  by pat_completeness auto
termination
proof (relation "measure (\<lambda>(self, env, s). nat (retry_max_attempts self + 1 - attempt_number s))",
    goal_cases)
  case 1
  show ?case by simp
next
  case (2 self env s fl s')
  have ok: "\<And>r ok. handle_response self r = Inr ok \<Longrightarrow> ok"
    by (auto simp: handle_response_def split: if_splits option.splits)
  have "fst (try_block self env s) \<noteq> Normal"
    by (auto simp: try_block_def send_def Let_def
          split: prod.splits sum.splits option.splits reply.splits if_splits dest: ok)
  moreover have "attempt_number (snd (try_block self env s)) = attempt_number s"
    by (auto simp: try_block_def send_def Let_def
          split: prod.splits sum.splits option.splits reply.splits if_splits)
  ultimately have "attempt_number s' = attempt_number s + 1"
    using 2(2) [symmetric] 2(3)
    by (cases "try_block self env s")
       (auto simp: iteration_def finally_block_def except_block_def Let_def
          split: prod.splits flow.splits if_splits option.splits exn.splits)
  with 2(1) show ?case by simp
qed

declare loop.simps [simp del]

text \<open>The result of a call: a value, the implicit \<open>None\<close> of a function body that
  ends without \<open>return\<close>, or an exception.\<close>

datatype 'j outcome = Returns 'j | ReturnsNone | Raises exn

definition initial :: "'j state" where
  "initial = \<lparr>attempt_number = 1, response = None, calls = 0, draws = 0, trace = []\<rparr>"

definition handle_request :: "config \<Rightarrow> 'j env \<Rightarrow> 'j outcome \<times> 'j state" where
  "handle_request self env =
     (case loop self env initial of
        (Normal, s) \<Rightarrow> (ReturnsNone, s)
      | (Return j, s) \<Rightarrow> (Returns j, s)
      | (Raise e, s) \<Rightarrow> (Raises e, s))"

text \<open>The constructor's default arguments.\<close>

definition RequestHandler :: "string \<Rightarrow> config" where
  "RequestHandler url =
     \<lparr>base_url = url, http_method = ''GET'', request_interval = 5, retry_max_attempts = 3,
      valid_statuses = {200, 201},
      invalid_statuses = {400, 401, 403, 404, 429, 500, 503},
      retry_statuses = {429}\<rparr>"

subsection \<open>Reading a trace\<close>

fun is_call :: "event \<Rightarrow> bool" where
  "is_call HttpGet = True"
| "is_call HttpPost = True"
| "is_call _ = False"

fun is_backoff :: "event \<Rightarrow> bool" where
  "is_backoff (BackoffSleep _) = True"
| "is_backoff _ = False"

fun is_interval :: "event \<Rightarrow> bool" where
  "is_interval (IntervalSleep _) = True"
| "is_interval _ = False"

text \<open>The event that a transport call of a handler with method \<open>GET\<close> or \<open>POST\<close>
  leaves in the trace.\<close>

definition call_event :: "config \<Rightarrow> event" where
  "call_event self = (if http_method self = ''GET'' then HttpGet else HttpPost)"

definition valid_method :: "config \<Rightarrow> bool" where
  "valid_method self = (http_method self = ''GET'' \<or> http_method self = ''POST'')"

text \<open>
  A trace is paced when it is a sequence of attempts, each of them one transport call,
  then at most one backoff sleep, then one sleep of the request interval.
\<close>

fun paced :: "int \<Rightarrow> event list \<Rightarrow> bool" where
  "paced i [] = True"
| "paced i (c # BackoffSleep d # IntervalSleep k # es) = (is_call c \<and> k = i \<and> paced i es)"
| "paced i (c # IntervalSleep k # es) = (is_call c \<and> k = i \<and> paced i es)"
| "paced i _ = False"

section \<open>Properties\<close>

subsection \<open>Rounding to doubles\<close>

lemma round_half_even_floor: "\<lfloor>x\<rfloor> \<le> round_half_even x \<and> round_half_even x \<le> \<lfloor>x\<rfloor> + 1"
  by (simp add: round_half_even_def Let_def)

lemma round_half_even_of_int: "round_half_even (of_int m) = m"
  by (simp add: round_half_even_def Let_def)

lemma round_half_even_ge:
  assumes "of_int m \<le> x"
  shows "m \<le> round_half_even x"
proof -
  from assms have "m \<le> \<lfloor>x\<rfloor>" by (simp add: le_floor_iff)
  with round_half_even_floor [of x] show ?thesis by linarith
qed

lemma round_half_even_le:
  assumes "x \<le> of_int m"
  shows "round_half_even x \<le> m"
proof (cases "x = of_int m")
  case True
  then show ?thesis by (simp add: round_half_even_of_int)
next
  case False
  with assms have "x < of_int m" by simp
  then have "\<lfloor>x\<rfloor> < m" by (simp add: floor_less_iff)
  with round_half_even_floor [of x] show ?thesis by linarith
qed

lemma floor_log2:
  assumes "2 powi e \<le> x" and "x < 2 powi (e + 1)"
  shows "\<lfloor>log 2 x\<rfloor> = e"
proof -
  have "(0::real) < 2 powi e" by simp
  with assms(1) have x: "0 < x" by linarith
  have p1: "(2::real) powr real_of_int e = 2 powi e"
    by (rule powr_real_of_int') simp_all
  have p2: "(2::real) powr real_of_int (e + 1) = 2 powi (e + 1)"
    by (rule powr_real_of_int') simp_all
  have "2 powr real_of_int e \<le> x \<and> x < 2 powr real_of_int (e + 1)"
    unfolding p1 p2 using assms by blast
  moreover have "(1::real) < 2" by simp
  ultimately show ?thesis
    using floor_log_eq_powr_iff [of x 2 e] x by blast
qed

lemma ulp_binade:
  assumes "2 powi e \<le> x" and "x < 2 powi (e + 1)" and "- 1022 \<le> e"
  shows "ulp x = 2 powi (e - 52)"
proof -
  have "(0::real) < 2 powi e" by simp
  with assms(1) have "0 < x" by linarith
  then have "\<bar>x\<bar> = x" by simp
  moreover have "\<lfloor>log 2 x\<rfloor> = e" by (rule floor_log2 [OF assms(1,2)])
  moreover from assms(3) have "max (e - 52) (- 1074) = e - 52" by simp
  ultimately show ?thesis by (simp only: ulp_def)
qed

text \<open>Rounding between two multiples of the unit of the binade of \<open>x\<close>.\<close>

lemma nearest_double_binade:
  assumes "2 powi e \<le> x" and "x < 2 powi (e + 1)" and "- 1022 \<le> e"
    and "a = of_int m * 2 powi (e - 52)" and "b = of_int n * 2 powi (e - 52)"
    and "a \<le> x" and "x \<le> b"
  shows "a \<le> nearest_double x \<and> nearest_double x \<le> b"
proof -
  let ?u = "(2::real) powi (e - 52)"
  have u: "ulp x = ?u" by (rule ulp_binade [OF assms(1-3)])
  have pos: "0 < ?u" by simp
  have "(0::real) < 2 powi e" by simp
  with assms(1) have x: "x \<noteq> 0" by linarith
  from assms(4,6) pos have "of_int m \<le> x / ?u" by (simp add: pos_le_divide_eq)
  then have 1: "m \<le> round_half_even (x / ?u)" by (rule round_half_even_ge)
  from assms(5,7) pos have "x / ?u \<le> of_int n" by (simp add: pos_divide_le_eq)
  then have 2: "round_half_even (x / ?u) \<le> n" by (rule round_half_even_le)
  from 1 have "of_int m * ?u \<le> of_int (round_half_even (x / ?u)) * ?u"
    using pos by (intro mult_right_mono) simp_all
  moreover from 2 have "of_int (round_half_even (x / ?u)) * ?u \<le> of_int n * ?u"
    using pos by (intro mult_right_mono) simp_all
  ultimately show ?thesis
    using x u assms(4,5) by (simp add: nearest_double_def)
qed


lemma uniform01_range: "0 \<le> uniform01 k \<and> uniform01 k < 1"
proof -
  have "k mod 2 ^ 53 < 2 ^ 53" by simp
  then have "real (k mod 2 ^ 53) < 2 ^ 53"
    by (metis of_nat_less_iff of_nat_numeral of_nat_power)
  then show ?thesis by (simp add: uniform01_def)
qed

lemma nearest_double_exact:
  assumes "2 powi e \<le> x" and "x < 2 powi (e + 1)" and "- 1022 \<le> e"
    and "x = of_int m * 2 powi (e - 52)"
  shows "nearest_double x = x"
  using nearest_double_binade [OF assms(1-3) assms(4) assms(4)] by simp

lemma power_int_shift: "(2::real) powi (e - 51) = 2 * 2 powi (e - 52)"
proof -
  have "(2::real) powi (e - 51) = 2 powi (1 + (e - 52))" by simp
  also have "\<dots> = 2 powi 1 * 2 powi (e - 52)" by (rule power_int_add) simp
  finally show ?thesis by simp
qed

lemma nearest_double_twofold:
  assumes "2 powi e \<le> a" and "a < 2 powi (e + 1)" and "- 1022 \<le> e"
    and "a = of_int m * 2 powi (e - 51)"
    and "a \<le> x" and "x \<le> 2 * a"
  shows "a \<le> nearest_double x \<and> nearest_double x \<le> 2 * a"
proof (cases "x < 2 powi (e + 1)")
  case True
  from assms(1,5) have lo: "2 powi e \<le> x" by simp
  have a: "a = of_int (2 * m) * 2 powi (e - 52)"
    using assms(4) by (simp add: power_int_shift)
  have b: "2 * a = of_int (4 * m) * 2 powi (e - 52)"
    using assms(4) by (simp add: power_int_shift)
  show ?thesis
    by (rule nearest_double_binade [OF lo True assms(3) a b assms(5,6)])
next
  case False
  then have lo: "2 powi (e + 1) \<le> x" by simp
  have "(2::real) powi (e + 1 + 1) = 2 powi (e + 1) * 2 powi 1"
    by (rule power_int_add) simp
  with assms(2,6) have hi: "x < 2 powi (e + 1 + 1)" by simp
  from assms(3) have n: "- 1022 \<le> e + 1" by simp
  have a: "a = of_int m * 2 powi (e + 1 - 52)"
    using assms(4) by simp
  have b: "2 * a = of_int (2 * m) * 2 powi (e + 1 - 52)"
    using assms(4) by simp
  show ?thesis
    by (rule nearest_double_binade [OF lo hi n a b assms(5,6)])
qed

lemma nearest_double_jitter:
  assumes "0 \<le> j" and "j < 1"
  shows "1 \<le> nearest_double (1 + j) \<and> nearest_double (1 + j) \<le> 2"
proof -
  have "(1::real) = of_int (2 ^ 52) * 2 powi (0 - 52)"
    and "(2::real) = of_int (2 ^ 53) * 2 powi (0 - 52)"
    by (simp_all add: power_int_minus)
  moreover from assms have "2 powi 0 \<le> 1 + j" and "1 + j < 2 powi (0 + 1)"
    and "1 \<le> 1 + j" and "1 + j \<le> 2"
    by simp_all
  ultimately show ?thesis
    by (intro nearest_double_binade [where e = 0]) simp_all
qed


lemma scaled_between:
  assumes "2 powi e \<le> b" and "b < 2 powi (e + 1)" and "- 1022 \<le> e"
    and "b = of_int m * 2 powi (e - 51)"
    and "1 \<le> y" and "y \<le> 2"
  shows "b \<le> nearest_double (b * y) \<and> nearest_double (b * y) \<le> 2 * b"
proof -
  have "(0::real) < 2 powi e" by simp
  with assms(1) have "0 < b" by linarith
  with assms(5,6) have "b * 1 \<le> b * y" and "b * y \<le> b * 2"
    by (intro mult_left_mono; simp)+
  then have "b \<le> b * y" and "b * y \<le> 2 * b" by simp_all
  then show ?thesis
    by (rule nearest_double_twofold [OF assms(1-4)])
qed

lemma base_cases:
  assumes "0 \<le> n"
  shows "n = 0 \<or> n = 1 \<or> n = 2 \<or> n = 3 \<or> min ((2::real) ^ nat n) 10 = 10"
proof (cases "n \<le> 3")
  case True
  with assms show ?thesis by auto
next
  case False
  then have "4 \<le> nat n" by simp
  then have "(2::real) ^ 4 \<le> 2 ^ nat n" by (intro power_increasing) simp_all
  then show ?thesis by simp
qed

lemma backoff_delay_between:
  assumes "0 \<le> n" and "0 \<le> j" and "j < 1"
  shows "backoff_delay n j = nearest_double (min (2 ^ nat n) 10 * nearest_double (1 + j))
       \<and> min (2 ^ nat n) 10 \<le> backoff_delay n j
       \<and> backoff_delay n j \<le> 2 * min (2 ^ nat n) 10"
proof -
  let ?y = "nearest_double (1 + j)"
  from nearest_double_jitter [OF assms(2,3)] have y: "1 \<le> ?y" "?y \<le> 2" by simp_all
  have eq: "\<And>k. 0 \<le> k \<Longrightarrow> backoff_delay k j = nearest_double (min (2 ^ nat k) 10 * ?y)"
    by (simp add: backoff_delay_def)
  have b1: "(1::real) \<le> nearest_double (1 * ?y) \<and> nearest_double (1 * ?y) \<le> 2 * 1"
    by (rule scaled_between [where e = 0 and m = "2 ^ 51", OF _ _ _ _ y])
       (simp_all add: power_int_minus)
  have b2: "(2::real) \<le> nearest_double (2 * ?y) \<and> nearest_double (2 * ?y) \<le> 2 * 2"
    by (rule scaled_between [where e = 1 and m = "2 ^ 51", OF _ _ _ _ y])
       (simp_all add: power_int_minus)
  have b4: "(4::real) \<le> nearest_double (4 * ?y) \<and> nearest_double (4 * ?y) \<le> 2 * 4"
    by (rule scaled_between [where e = 2 and m = "2 ^ 51", OF _ _ _ _ y])
       (simp_all add: power_int_minus)
  have b8: "(8::real) \<le> nearest_double (8 * ?y) \<and> nearest_double (8 * ?y) \<le> 2 * 8"
    by (rule scaled_between [where e = 3 and m = "2 ^ 51", OF _ _ _ _ y])
       (simp_all add: power_int_minus)
  have b10: "(10::real) \<le> nearest_double (10 * ?y) \<and> nearest_double (10 * ?y) \<le> 2 * 10"
    by (rule scaled_between [where e = 3 and m = "10 * 2 ^ 48", OF _ _ _ _ y])
       (simp_all add: power_int_minus)
  have bounds: "min (2 ^ nat n) 10 \<le> nearest_double (min (2 ^ nat n) 10 * ?y)
      \<and> nearest_double (min (2 ^ nat n) 10 * ?y) \<le> 2 * min (2 ^ nat n) 10"
    using base_cases [OF assms(1)] b1 b2 b4 b8 b10
    by (elim disjE) (simp_all add: eval_nat_numeral)
  from eq [OF assms(1)] bounds show ?thesis by simp
qed

lemma nearest_double_values:
  "nearest_double 1 = 1" "nearest_double (3 / 2) = 3 / 2" "nearest_double 2 = 2"
  "nearest_double 3 = 3" "nearest_double 4 = 4" "nearest_double 6 = 6"
proof -
  show "nearest_double 1 = 1"
    by (rule nearest_double_exact [where e = 0 and m = "2 ^ 52"])
       (simp_all add: power_int_minus)
  show "nearest_double (3 / 2) = 3 / 2"
    by (rule nearest_double_exact [where e = 0 and m = "3 * 2 ^ 51"])
       (simp_all add: power_int_minus)
  show "nearest_double 2 = 2"
    by (rule nearest_double_exact [where e = 1 and m = "2 ^ 52"])
       (simp_all add: power_int_minus)
  show "nearest_double 3 = 3"
    by (rule nearest_double_exact [where e = 1 and m = "3 * 2 ^ 51"])
       (simp_all add: power_int_minus)
  show "nearest_double 4 = 4"
    by (rule nearest_double_exact [where e = 2 and m = "2 ^ 52"])
       (simp_all add: power_int_minus)
  show "nearest_double 6 = 6"
    by (rule nearest_double_exact [where e = 2 and m = "3 * 2 ^ 51"])
       (simp_all add: power_int_minus)
qed

lemma backoff_delay_values:
  "backoff_delay 1 0 = 2" "backoff_delay 1 (1 / 2) = 3" "backoff_delay 2 (1 / 2) = 6"
  by (simp_all add: backoff_delay_def nearest_double_values)

lemma ulp_pos: "0 < ulp x"
  by (simp add: ulp_def)

lemma nearest_double_nonneg:
  assumes "0 \<le> x"
  shows "0 \<le> nearest_double x"
proof -
  from assms ulp_pos [of x] have "of_int 0 \<le> x / ulp x" by simp
  then have "0 \<le> round_half_even (x / ulp x)" by (rule round_half_even_ge)
  with ulp_pos [of x] show ?thesis by (simp add: nearest_double_def)
qed

lemma nearest_double_le_pow2:
  assumes "0 < x" and "x \<le> 2 powi k" and "- 1074 \<le> k"
  shows "nearest_double x \<le> 2 powi k"
proof -
  define E where "E = max (\<lfloor>log 2 \<bar>x\<bar>\<rfloor> - 52) (- 1074)"
  have u: "ulp x = 2 powi E" by (simp add: ulp_def E_def)
  have "(2::real) powr real_of_int k = 2 powi k"
    by (rule powr_real_of_int') simp_all
  with assms(1,2) have "log 2 x \<le> real_of_int k"
    by (simp add: log_le_iff)
  then have "\<lfloor>log 2 x\<rfloor> \<le> k" by (simp add: floor_le_iff)
  with assms(1,3) have "E \<le> k" by (simp add: E_def)
  define d where "d = nat (k - E)"
  from \<open>E \<le> k\<close> have k: "k = E + int d" by (simp add: d_def)
  have "(2::real) powi (E + int d) = 2 powi E * 2 powi int d"
    by (rule power_int_add) simp
  moreover have "(2::real) powi int d = 2 ^ d"
    by (rule power_int_of_nat)
  ultimately have p: "(2::real) powi k = of_int (2 ^ d) * 2 powi E"
    by (simp add: k)
  have pos: "(0::real) < 2 powi E" by simp
  from assms(2) p pos have "x / 2 powi E \<le> of_int (2 ^ d)"
    by (simp add: pos_divide_le_eq)
  then have "round_half_even (x / 2 powi E) \<le> 2 ^ d"
    by (rule round_half_even_le)
  then have "real_of_int (round_half_even (x / 2 powi E)) \<le> real_of_int (2 ^ d)"
    by (simp only: of_int_le_iff)
  then have "real_of_int (round_half_even (x / 2 powi E)) * 2 powi E
      \<le> real_of_int (2 ^ d) * 2 powi E"
    using pos by (intro mult_right_mono) simp_all
  with assms(1) u p show ?thesis by (simp add: nearest_double_def)
qed

lemma backoff_delay_range:
  assumes "0 \<le> j" and "j < 1"
  shows "0 \<le> backoff_delay n j \<and> backoff_delay n j \<le> 20"
proof (cases "0 \<le> n")
  case True
  have "(1::real) \<le> 2 ^ nat n" by simp
  then have "(1::real) \<le> min (2 ^ nat n) 10" by simp
  moreover have "min ((2::real) ^ nat n) 10 \<le> 10" by simp
  ultimately show ?thesis
    using backoff_delay_between [OF True assms] by linarith
next
  case False
  let ?p = "nearest_double (2 powi n)"
  let ?y = "nearest_double (1 + j)"
  from False have "(2::real) powi n \<le> 2 powi 0"
    by (intro power_int_increasing) simp_all
  then have "?p \<le> 2 powi 0"
    by (intro nearest_double_le_pow2) simp_all
  then have p1: "?p \<le> 1" by simp
  have p0: "0 \<le> ?p" by (rule nearest_double_nonneg) simp
  from p0 p1 have m: "min ?p 10 = ?p" by simp
  from nearest_double_jitter [OF assms] have y: "1 \<le> ?y" "?y \<le> 2" by simp_all
  from p0 y have lo: "0 \<le> ?p * ?y" by simp
  from p0 p1 y have "?p * ?y \<le> 1 * 2" by (intro mult_mono) simp_all
  then have hi: "?p * ?y \<le> 2 powi 1" by simp
  have "nearest_double (?p * ?y) \<le> 2 powi 1"
  proof (cases "?p * ?y = 0")
    case True
    then show ?thesis by (simp add: nearest_double_def)
  next
    case False
    with lo have "0 < ?p * ?y" by (auto simp only: less_le)
    then show ?thesis using hi by (rule nearest_double_le_pow2) simp
  qed
  moreover have "0 \<le> nearest_double (?p * ?y)"
    using lo by (rule nearest_double_nonneg)
  ultimately show ?thesis
    using False m by (simp add: backoff_delay_def)
qed

text \<open>The argument of the backoff sleep is a float between 0 and 20, whatever the
  attempt number and the draw.\<close>

lemma backoff_sleep_argument:
  "0 \<le> backoff_delay n (uniform01 k) \<and> backoff_delay n (uniform01 k) \<le> 20"
  using uniform01_range [of k] by (intro backoff_delay_range) simp_all


subsection \<open>One iteration, step by step\<close>

lemma handle_response_ok: "handle_response self r = Inr ok \<Longrightarrow> ok"
  by (auto simp: handle_response_def split: if_splits option.splits)

lemma loop_stop: "\<not> attempt_number s \<le> retry_max_attempts self \<Longrightarrow> loop self env s = (Normal, s)"
  by (simp add: loop.simps)

lemma loop_continue:
  "attempt_number s \<le> retry_max_attempts self \<Longrightarrow> iteration self env s = (Normal, s')
   \<Longrightarrow> loop self env s = loop self env s'"
  by (subst loop.simps) simp

lemma loop_return:
  "attempt_number s \<le> retry_max_attempts self \<Longrightarrow> iteration self env s = (Return j, s')
   \<Longrightarrow> loop self env s = (Return j, s')"
  by (subst loop.simps) simp

lemma loop_raise:
  "attempt_number s \<le> retry_max_attempts self \<Longrightarrow> iteration self env s = (Raise e, s')
   \<Longrightarrow> loop self env s = (Raise e, s')"
  by (subst loop.simps) simp

lemma try_block_failure:
  assumes "valid_method self" and "transport env (calls s) = Failure e"
  shows "try_block self env s
       = (Raise e, s\<lparr>calls := calls s + 1, trace := trace s @ [call_event self]\<rparr>)"
  using assms by (auto simp: try_block_def send_def valid_method_def call_event_def Let_def)

lemma try_block_response:
  assumes "valid_method self" and "transport env (calls s) = Response r"
  shows "try_block self env s
       = (case handle_response self r of
            Inl e \<Rightarrow> Raise e
          | Inr ok \<Rightarrow> (case json r of None \<Rightarrow> Raise JSONDecodeError | Some j \<Rightarrow> Return j),
          s\<lparr>calls := calls s + 1, trace := trace s @ [call_event self], response := Some r\<rparr>)"
  using assms
  by (auto simp: try_block_def send_def valid_method_def call_event_def Let_def
        split: sum.splits option.splits dest: handle_response_ok)






lemma iteration_failure_last:
  assumes "valid_method self" and "time_sleep (request_interval self) = None"
    and "transport env (calls s) = Failure e" and "caught e"
    and "attempt_number s = retry_max_attempts self"
  shows "iteration self env s
       = (Raise e, s\<lparr>calls := calls s + 1,
            trace := trace s @ [call_event self, IntervalSleep (request_interval self)]\<rparr>)"
  using assms
  by (auto simp: iteration_def try_block_failure finally_block_def except_block_def Let_def)


lemma iteration_failure_stale:
  assumes "valid_method self" and "time_sleep (request_interval self) = None"
    and "transport env (calls s) = Failure e" and "caught e"
    and "attempt_number s \<noteq> retry_max_attempts self" and "response s = Some r"
  shows "iteration self env s
       = (if status_code r \<in> retry_statuses self
          then (Normal, s\<lparr>attempt_number := attempt_number s + 1, calls := calls s + 1,
                     draws := draws s + 1,
                     trace := trace s @ [call_event self,
                        BackoffSleep (backoff_delay (attempt_number s) (uniform01 (uniform env (draws s)))),
                        IntervalSleep (request_interval self)]\<rparr>)
          else (Raise e, s\<lparr>calls := calls s + 1,
                     trace := trace s @ [call_event self, IntervalSleep (request_interval self)]\<rparr>))"
  using assms
  by (auto simp: iteration_def try_block_failure finally_block_def except_block_def Let_def)


text \<open>
  An iteration ends normally only with a response bound whose status is a retry status.
  So the handler of a transport failure finds \<open>response\<close> unbound on the first attempt
  only, and on a later attempt before the last it retries.
\<close>

lemma iteration_invalid_method:
  assumes "\<not> valid_method self" and "time_sleep (request_interval self) = None"
  shows "iteration self env s
       = (Raise (ValueError (''Invalid HTTP method: '' @ http_method self)),
          s\<lparr>trace := trace s @ [IntervalSleep (request_interval self)]\<rparr>)"
  using assms
  by (simp add: iteration_def try_block_def finally_block_def valid_method_def Let_def)

lemma try_block_not_Normal: "try_block self env s \<noteq> (Normal, s1)"
  by (auto simp: try_block_def send_def Let_def
        split: prod.splits sum.splits option.splits reply.splits if_splits
        dest: handle_response_ok)

lemma iteration_Normal_response:
  assumes "iteration self env s = (Normal, s')"
  shows "\<exists>r. response s' = Some r \<and> status_code r \<in> retry_statuses self"
proof -
  obtain fl s1 where t: "try_block self env s = (fl, s1)"
    by (cases "try_block self env s")
  show ?thesis
  proof (cases fl)
    case Normal
    with t show ?thesis
      by (simp add: try_block_not_Normal)
  next
    case (Return j)
    with t assms show ?thesis
      by (simp add: iteration_def finally_block_def Let_def split: option.splits)
  next
    case (Raise e)
    show ?thesis
    proof (cases "caught e")
      case True
      with Raise t assms show ?thesis
        by (auto simp: iteration_def finally_block_def except_block_def Let_def
              split: if_splits option.splits)
    next
      case False
      with Raise t assms show ?thesis
        by (auto simp: iteration_def finally_block_def Let_def
              split: if_splits exn.splits option.splits)
    qed
  qed
qed

lemma later_failure_retried:
  assumes "valid_method self" and "time_sleep (request_interval self) = None"
    and "iteration self env s0 = (Normal, s)"
    and "transport env (calls s) = Failure e" and "caught e"
    and "attempt_number s \<noteq> retry_max_attempts self"
  shows "fst (iteration self env s) = Normal"
proof -
  from iteration_Normal_response [OF assms(3)]
  obtain r where "response s = Some r" and "status_code r \<in> retry_statuses self" by auto
  with assms(1,2,4-6) show ?thesis
    by (simp add: iteration_failure_stale [where e = e and r = r])
qed

subsection \<open>The shape of a trace\<close>

lemma is_call_not_sleep: "is_call c \<Longrightarrow> \<not> is_interval c \<and> \<not> is_backoff c"
  by (cases c) auto

lemma paced_append: "paced i xs \<Longrightarrow> paced i ys \<Longrightarrow> paced i (xs @ ys)"
  by (induction i xs rule: paced.induct) auto

lemma paced_counts: "paced i es \<Longrightarrow> length (filter is_interval es) = length (filter is_call es)"
  by (induction i es rule: paced.induct) (auto dest: is_call_not_sleep)

lemma paced_last: "paced i es \<Longrightarrow> es \<noteq> [] \<Longrightarrow> last es = IntervalSleep i"
  by (induction i es rule: paced.induct) auto

lemma is_call_call_event: "is_call (call_event self)"
  by (simp add: call_event_def)

lemma try_block_trace:
  assumes "valid_method self"
  shows "trace (snd (try_block self env s)) = trace s @ [call_event self]"
  using assms
  by (cases "transport env (calls s)")
     (auto simp: try_block_response try_block_failure split: sum.splits option.splits)

lemma except_block_trace:
  "trace (snd (except_block self env e s)) = trace s
   \<or> (\<exists>d. trace (snd (except_block self env e s)) = trace s @ [BackoffSleep d])"
  by (auto simp: except_block_def Let_def split: option.splits)

lemma iteration_trace:
  assumes "valid_method self"
  shows "\<exists>b. trace (snd (iteration self env s)) = trace s @ b
           \<and> paced (request_interval self) b \<and> b \<noteq> [] \<and> hd b = call_event self"
proof -
  let ?i = "request_interval self"
  obtain fl s1 where t: "try_block self env s = (fl, s1)"
    by (cases "try_block self env s")
  with try_block_trace [OF assms, of env s]
  have s1: "trace s1 = trace s @ [call_event self]" by simp
  define h where "h = (case (fl, s1) of
          (Raise e, s1) \<Rightarrow>
            if caught e then except_block self env e s1
            else (case e of
                    UnspecifiedHTTPStatusError m \<Rightarrow> (Raise (UnspecifiedHTTPStatusError m), s1)
                  | _ \<Rightarrow> (Raise e, s1))
        | (fl, s1) \<Rightarrow> (fl, s1))"
  have h: "trace (snd h) = trace s1 \<or> (\<exists>d. trace (snd h) = trace s1 @ [BackoffSleep d])"
  proof (cases fl)
    case (Raise e)
    show ?thesis
    proof (cases "caught e")
      case True
      with Raise have "h = except_block self env e s1" by (simp add: h_def)
      with except_block_trace [of self env e s1] show ?thesis by simp
    next
      case False
      with Raise have "snd h = s1" by (simp add: h_def split: exn.splits)
      then show ?thesis by simp
    qed
  qed (simp_all add: h_def)
  have it: "iteration self env s = finally_block self h"
    by (simp add: iteration_def t h_def)
  have "trace (snd (finally_block self h)) = trace (snd h) @ [IntervalSleep ?i]"
    by (cases h) (simp add: finally_block_def Let_def split: option.splits)
  with h s1 it
  have "trace (snd (iteration self env s)) = trace s @ [call_event self, IntervalSleep ?i]
      \<or> (\<exists>d. trace (snd (iteration self env s))
             = trace s @ [call_event self, BackoffSleep d, IntervalSleep ?i])"
    by auto
  then show ?thesis
    by (auto simp: is_call_call_event)
qed

lemma loop_trace:
  assumes "valid_method self"
  shows "\<exists>es. trace (snd (loop self env s)) = trace s @ es \<and> paced (request_interval self) es"
  using assms
proof (induction self env s rule: loop.induct)
  case (1 self env s)
  let ?i = "request_interval self"
  show ?case
  proof (cases "attempt_number s \<le> retry_max_attempts self")
    case False
    then show ?thesis by (simp add: loop_stop)
  next
    case True
    obtain fl s' where it: "iteration self env s = (fl, s')"
      by (cases "iteration self env s")
    from iteration_trace [OF "1.prems", of env s] it
    obtain b where b: "trace s' = trace s @ b" "paced ?i b" by auto
    show ?thesis
    proof (cases fl)
      case Normal
      with True it have l: "loop self env s = loop self env s'" by (simp add: loop_continue)
      from "1.IH" [OF True it [symmetric] Normal "1.prems"]
      obtain es where "trace (snd (loop self env s')) = trace s' @ es" "paced ?i es" by auto
      with b l have "trace (snd (loop self env s)) = trace s @ (b @ es)" "paced ?i (b @ es)"
        by (simp_all add: paced_append)
      then show ?thesis by blast
    next
      case (Return j)
      with True it have "loop self env s = (fl, s')" by (simp add: loop_return)
      with b show ?thesis by auto
    next
      case (Raise e)
      with True it have "loop self env s = (fl, s')" by (simp add: loop_raise)
      with b show ?thesis by auto
    qed
  qed
qed




lemma handle_request_state: "snd (handle_request self env) = snd (loop self env initial)"
  by (simp add: handle_request_def split: prod.splits flow.splits)

subsection \<open>The backoff delay\<close>

text \<open>
  Claim C6, amended. For an attempt number \<open>n \<ge> 0\<close> and a jitter \<open>j\<close> in \<open>[0, 1)\<close>, the
  backoff delay is the double nearest to \<open>min(2^n, 10) * d\<close>, where \<open>d\<close> is the double
  nearest to \<open>1 + j\<close>; it is at least \<open>min(2^n, 10)\<close> and at most twice that; the base
  is 1 for \<open>n = 0\<close> (a delay between 1 and 2) and is capped at 10, not 1024, for
  \<open>n = 10\<close> (a delay between 10 and 20).
\<close>

theorem backoff_delay_bounds:
  assumes "0 \<le> n" and "0 \<le> j" and "j < 1"
  shows "backoff_delay n j = nearest_double (min (2 ^ nat n) 10 * nearest_double (1 + j))
       \<and> min (2 ^ nat n) 10 \<le> backoff_delay n j
       \<and> backoff_delay n j \<le> 2 * min (2 ^ nat n) 10
       \<and> 1 \<le> backoff_delay 0 j \<and> backoff_delay 0 j \<le> 2
       \<and> 10 \<le> backoff_delay 10 j \<and> backoff_delay 10 j \<le> 20"
proof -
  have z: "1 \<le> backoff_delay 0 j \<and> backoff_delay 0 j \<le> 2"
    using backoff_delay_between [of 0 j] assms(2,3) by simp
  have "(10::real) \<le> 2 ^ 10" by simp
  then have "min ((2::real) ^ 10) 10 = 10" by (simp only: min_absorb2)
  then have t: "10 \<le> backoff_delay 10 j \<and> backoff_delay 10 j \<le> 20"
    using backoff_delay_between [of 10 j] assms(2,3) by simp
  from backoff_delay_between [OF assms] z t show ?thesis by blast
qed

theorem backoff_delay_bounds_witness:
  "backoff_delay 2 (1 / 2) = nearest_double (min (2 ^ nat 2) 10 * nearest_double (1 + 1 / 2))
   \<and> backoff_delay 2 (1 / 2) = 6
   \<and> min (2 ^ nat 2) 10 \<le> backoff_delay 2 (1 / 2)
   \<and> backoff_delay 2 (1 / 2) \<le> 2 * min (2 ^ nat 2) 10
   \<and> 1 \<le> backoff_delay 0 (1 / 2) \<and> backoff_delay 0 (1 / 2) \<le> 2
   \<and> 10 \<le> backoff_delay 10 (1 / 2) \<and> backoff_delay 10 (1 / 2) \<le> 20"
proof -
  have "(0::int) \<le> 2" and "(0::real) \<le> 1 / 2" and "(1::real) / 2 < 1" by simp_all
  from backoff_delay_bounds [OF this] backoff_delay_values(3) show ?thesis by blast
qed

text \<open>
  The bound \<open>2 * min(2^n, 10)\<close> is reached: for the largest value of \<open>random()\<close>,
  \<open>1 - 2^-53\<close>, the sum \<open>1 + j\<close> lies halfway between two doubles and rounds to 2.
  The delay is then not the real product \<open>min(2^n, 10) * (1 + j)\<close> either.
\<close>

theorem backoff_delay_upper_bound_attained:
  "(0::real) \<le> 1 - 1 / 2 ^ 53 \<and> (1::real) - 1 / 2 ^ 53 < 1
   \<and> backoff_delay 1 (1 - 1 / 2 ^ 53) = 2 * min (2 ^ nat 1) 10
   \<and> backoff_delay 1 (1 - 1 / 2 ^ 53) \<noteq> min (2 ^ nat 1) 10 * (1 + (1 - 1 / 2 ^ 53))"
proof -
  let ?x = "(1::real) + (1 - 1 / 2 ^ 53)"
  have u: "ulp ?x = 2 powi (0 - 52)"
    by (rule ulp_binade) simp_all
  have q: "?x / 2 powi (0 - 52) = 18014398509481983 / 2"
    by (simp add: power_int_minus)
  have r: "round_half_even (18014398509481983 / 2) = 9007199254740992"
    by (simp add: round_half_even_def Let_def)
  have nz: "?x \<noteq> 0" by simp
  then have "nearest_double ?x = of_int (round_half_even (?x / ulp ?x)) * ulp ?x"
    by (simp only: nearest_double_def if_False)
  also have "\<dots> = of_int (round_half_even (18014398509481983 / 2)) * 2 powi (0 - 52)"
    by (simp only: u q)
  also have "\<dots> = 2"
    by (simp add: r power_int_minus)
  finally have h: "nearest_double ?x = 2" .
  have f: "nearest_double (2 * 2) = 4"
    by (simp add: nearest_double_values)
  have "backoff_delay 1 (1 - 1 / 2 ^ 53) = nearest_double (2 * nearest_double ?x)"
    by (simp add: backoff_delay_def)
  also have "\<dots> = 4" by (simp only: h f)
  finally have "backoff_delay 1 (1 - 1 / 2 ^ 53) = 4" .
  then show ?thesis by simp
qed

subsection \<open>A status that is neither valid nor invalid\<close>



subsection \<open>A timeout before any response\<close>



subsection \<open>No attempt at all\<close>

text \<open>
  Claim C10. If \<open>retry_max_attempts\<close> is 0 (or negative), the loop body never runs:
  \<open>handle_request\<close> makes no transport call, sleeps never, raises nothing and returns
  \<open>None\<close>.
\<close>

theorem zero_attempts_returns_None:
  assumes "retry_max_attempts self \<le> 0"
  shows "handle_request self env
       = (ReturnsNone,
          \<lparr>attempt_number = 1, response = None, calls = 0, draws = 0, trace = []\<rparr>)"
proof -
  from assms have "\<not> attempt_number (initial :: 'a state) \<le> retry_max_attempts self"
    by (simp add: initial_def)
  then have "loop self env initial = (Normal, initial)"
    by (rule loop_stop)
  then show ?thesis
    by (simp add: handle_request_def initial_def)
qed

theorem zero_attempts_returns_None_witness:
  "handle_request ((RequestHandler ''https://api.test'')\<lparr>retry_max_attempts := 0\<rparr>)
     \<lparr>transport = (\<lambda>k. Response \<lparr>status_code = 200, content_utf8 = Some ''[]'',
                                   json = Some ''[]''\<rparr>),
      uniform = (\<lambda>k. 0)\<rparr>
   = (ReturnsNone,
      \<lparr>attempt_number = 1, response = None, calls = 0, draws = 0, trace = []\<rparr>)"
  using zero_attempts_returns_None
    [of "(RequestHandler ''https://api.test'')\<lparr>retry_max_attempts := 0\<rparr>"
        "\<lparr>transport = (\<lambda>k. Response \<lparr>status_code = 200, content_utf8 = Some ''[]'',
                                   json = Some ''[]''\<rparr>),
          uniform = (\<lambda>k. 0)\<rparr>"]
  by (simp add: RequestHandler_def)

subsection \<open>Retry statuses\<close>




subsection \<open>Timeouts\<close>

text \<open>
  Claim C2. A timeout of the transport on the first attempt, with attempts left, is not
  retried: the handler of the exception reads \<open>response.status_code\<close> while \<open>response\<close>
  is unbound, and the call ends with \<open>UnboundLocalError\<close> after one transport call.
\<close>

theorem timeout_on_first_attempt_not_retried:
  "handle_request (RequestHandler ''https://api.test'')
     \<lparr>transport = (\<lambda>k. if k = 0 then Failure Timeout else Response \<lparr>status_code = 200, content_utf8 = Some ''[1]'', json = Some ''[1]''\<rparr>),
      uniform = (\<lambda>k. 0)\<rparr>
   = (Raises (UnboundLocalError ''response''),
      \<lparr>attempt_number = 1, response = None, calls = 1, draws = 0,
       trace = [HttpGet, IntervalSleep 5]\<rparr>)"
  by (simp add: RequestHandler_def handle_request_def initial_def loop.simps iteration_def
        try_block_def send_def handle_response_def except_block_def finally_block_def
        time_sleep_def Let_def)

subsection \<open>Invalid statuses\<close>




subsection \<open>Exhausting the attempts\<close>




subsection \<open>Success on the second attempt\<close>




subsection \<open>The request interval\<close>

text \<open>
  Claim C5. In every run of \<open>handle_request\<close> of a handler with method \<open>GET\<close> or
  \<open>POST\<close>, the trace is a sequence of attempts, each one transport call, at most one
  backoff sleep, and then one sleep of \<open>request_interval\<close>: there are as many interval
  sleeps as transport calls, and the interval sleep of the last attempt is the last
  event before the result or the exception reaches the caller.
\<close>

theorem pacing_once_per_attempt:
  assumes "valid_method self"
  shows "paced (request_interval self) (trace (snd (handle_request self env)))
     \<and> length (filter is_interval (trace (snd (handle_request self env))))
         = length (filter is_call (trace (snd (handle_request self env))))
     \<and> (trace (snd (handle_request self env)) = []
          \<or> last (trace (snd (handle_request self env))) = IntervalSleep (request_interval self))"
proof -
  from loop_trace [OF assms, of env initial]
  obtain es where "trace (snd (loop self env initial)) = trace (initial :: 'a state) @ es"
    and "paced (request_interval self) es" by auto
  then have p: "paced (request_interval self) (trace (snd (handle_request self env)))"
    by (simp add: handle_request_state initial_def)
  from paced_counts [OF p] paced_last [OF p] p show ?thesis by blast
qed

theorem pacing_once_per_attempt_witness:
  "trace (snd (handle_request (RequestHandler ''https://api.test'')
       \<lparr>transport = (\<lambda>k. Failure ConnectionError :: string reply), uniform = (\<lambda>k. 0)\<rparr>))
     = [HttpGet, IntervalSleep 5]
   \<and> paced 5 (trace (snd (handle_request (RequestHandler ''https://api.test'')
       \<lparr>transport = (\<lambda>k. Failure ConnectionError :: string reply), uniform = (\<lambda>k. 0)\<rparr>)))
   \<and> length (filter is_interval (trace (snd (handle_request (RequestHandler ''https://api.test'')
       \<lparr>transport = (\<lambda>k. Failure ConnectionError :: string reply), uniform = (\<lambda>k. 0)\<rparr>))))
     = length (filter is_call (trace (snd (handle_request (RequestHandler ''https://api.test'')
       \<lparr>transport = (\<lambda>k. Failure ConnectionError :: string reply), uniform = (\<lambda>k. 0)\<rparr>))))
   \<and> (trace (snd (handle_request (RequestHandler ''https://api.test'')
       \<lparr>transport = (\<lambda>k. Failure ConnectionError :: string reply), uniform = (\<lambda>k. 0)\<rparr>)) = []
      \<or> last (trace (snd (handle_request (RequestHandler ''https://api.test'')
       \<lparr>transport = (\<lambda>k. Failure ConnectionError :: string reply), uniform = (\<lambda>k. 0)\<rparr>)))
          = IntervalSleep 5)"
  using pacing_once_per_attempt
    [of "RequestHandler ''https://api.test''"
        "\<lparr>transport = (\<lambda>k. Failure ConnectionError :: string reply), uniform = (\<lambda>k. 0)\<rparr>"]
  by (simp add: RequestHandler_def valid_method_def handle_request_def initial_def loop.simps
        iteration_def try_block_def send_def finally_block_def time_sleep_def Let_def)

end
